theory Spec2Isabelle
  imports Main "HOL-Library.Char_ord" "HOL-Library.List_Lexorder"
begin

section \<open>The range handler of cassiopeia (httpserver/rangehandler/rangehandler.go)\<close>

text \<open>
  The handler is a sequence of calls into its collaborators with early returns. The model
  keeps that shape: the parsing functions of go-trustless-utils, the CAR storage
  constructor and the verifying traversal are fields of an environment record, and
  \<open>handler\<close> returns the list of effects the Go function performs, in program order.
\<close>

subsection \<open>Data\<close>

type_synonym cid = string
type_synonym datamodel_path = "string list"

text \<open>Go errors: the two sentinels of trustlesshttp that the handler tests with
  \<open>errors.Is\<close>, and every other error with its message.\<close>

datatype error = ErrPathNotFound | ErrBadCid | ErrOther string

fun Error :: "error \<Rightarrow> string" where
  "Error ErrPathNotFound = ''not found''"
| "Error ErrBadCid = ''failed to parse root CID''"
| "Error (ErrOther m) = m"

definition errors_Is :: "error \<Rightarrow> error \<Rightarrow> bool" where
  "errors_Is err target = (err = target)"

definition StatusBadRequest :: nat where "StatusBadRequest = 400"
definition StatusNotFound :: nat where "StatusNotFound = 404"
definition StatusInternalServerError :: nat where "StatusInternalServerError = 500"

text \<open>A context is the one the request arrived with, or one derived from it by
  \<open>context.WithCancel\<close>.\<close>

datatype ctx = BaseContext string | WithCancel ctx

record request =
  Method :: string
  URL_Path :: string
  URL_RawQuery :: string
  Header :: "(string \<times> string list) list"
  Context :: ctx

text \<open>Where a call on a response writer ends up: on the client's connection, or in the
  write end of the pipe created by \<open>io.Pipe()\<close>.\<close>

datatype sink = ClientConn | PipeWriteEnd

text \<open>An \<open>http.ResponseWriter\<close> as the handler sees it: where \<open>Write\<close> goes and
  where the other methods (\<open>Header\<close>, \<open>WriteHeader\<close>) go.\<close>

record response_writer =
  Write_sink :: sink
  WriteHeader_sink :: sink

record byte_range =
  From :: int
  To :: "int option"

datatype dag_scope = DagScopeAll | DagScopeEntity | DagScopeBlock

record content_type =
  Mime :: string
  Duplicates :: bool

record car_options =
  WriteAsCarV1 :: bool
  AllowDuplicatePuts :: bool

record writable =
  writer :: response_writer
  roots :: "cid list"
  opts :: car_options

record link_system =
  WriteStorage :: "writable option"
  TrustedStorage :: bool
  UnixFSReification :: bool

record trustless_request =
  Root :: cid
  Path :: string
  Scope :: dag_scope
  Bytes :: "byte_range option"
  Req_Duplicates :: bool

text \<open>\<open>request.Selector()\<close> is kept symbolic: the selector compiled from a request.\<close>

datatype selector = Selector trustless_request

record traversal_config =
  Cfg_Root :: cid
  Cfg_Selector :: selector
  ExpectDuplicatesIn :: bool
  WriteDuplicatesOut :: bool
  UnsafeSkipUnexpected :: bool

datatype pipe_reader = PipeReadEnd

text \<open>The effects of one run of the handler. \<open>Go\<close> is the \<open>go func() {...}()\<close>
  statement with the effects of its body; \<open>Log\<close> is a call on a logger and
  \<open>PipeClose\<close> a \<open>Close\<close> on either end of the pipe.\<close>

datatype pipe_end = ReadEnd | WriteEnd

datatype event =
    HttpError response_writer string nat
  | Next response_writer request
  | NewWritableCall response_writer "cid list" car_options
  | Go "event list"
  | VerifyCar traversal_config ctx pipe_reader link_system
  | Cancel ctx
  | PipeClose pipe_end
  | Log string

text \<open>
  The collaborators of the handler whose code is outside the repository. The first six
  fields are the results the handler looks at (or drops). The others say what the
  collaborators do to their streams: the chunks the underlying handler passes to
  \<open>Write\<close>, the number of bytes the traversal reads from the pipe before it returns,
  the DAG-CBOR header of a CAR with the given roots, and the bytes the traversal writes
  through the link system's write storage after the header.
\<close>

record env =
  ParseByteRange :: "request \<Rightarrow> byte_range option \<times> error option"
  ParseUrlPath :: "string \<Rightarrow> error + (cid \<times> datamodel_path)"
  CheckFormat :: "request \<Rightarrow> error + content_type"
  ParseScope :: "request \<Rightarrow> error + dag_scope"
  NewWritable :: "response_writer \<Rightarrow> cid list \<Rightarrow> car_options \<Rightarrow> error option"
  VerifyCarResult :: "traversal_config \<Rightarrow> link_system \<Rightarrow> error option"
  NextWrites :: "request \<Rightarrow> string list"
  VerifyCarNeeds :: "traversal_config \<Rightarrow> nat"
  CarHeaderPayload :: "cid list \<Rightarrow> string"
  VerifyCarWrites :: "traversal_config \<Rightarrow> link_system \<Rightarrow> string"


subsection \<open>Query strings (Go's net/url, as the handler calls it)\<close>

text \<open>
  The producer's request is rebuilt with \<open>URL.Query()\<close>, \<open>Values.Del\<close> and
  \<open>Values.Encode\<close>. Strings are byte sequences; \<open>url.Values\<close>, a
  \<open>map[string][]string\<close>, is an association list with one entry per key.
\<close>

type_synonym Values = "(string \<times> string list) list"

definition ishex :: "char \<Rightarrow> bool" where
  "ishex c =
     ((CHR ''0'' \<le> c \<and> c \<le> CHR ''9'') \<or> (CHR ''a'' \<le> c \<and> c \<le> CHR ''f'')
      \<or> (CHR ''A'' \<le> c \<and> c \<le> CHR ''F''))"

definition unhex :: "char \<Rightarrow> nat" where
  "unhex c =
     (if CHR ''0'' \<le> c \<and> c \<le> CHR ''9'' then of_char c - of_char CHR ''0''
      else if CHR ''a'' \<le> c \<and> c \<le> CHR ''f'' then of_char c - of_char CHR ''a'' + 10
      else if CHR ''A'' \<le> c \<and> c \<le> CHR ''F'' then of_char c - of_char CHR ''A'' + 10
      else 0)"

definition upperhex :: string where
  "upperhex = ''0123456789ABCDEF''"

text \<open>\<open>shouldEscape\<close> in mode \<open>encodeQueryComponent\<close>: only the unreserved
  characters stay as they are.\<close>

definition shouldEscape :: "char \<Rightarrow> bool" where
  "shouldEscape c =
     (if (CHR ''a'' \<le> c \<and> c \<le> CHR ''z'') \<or> (CHR ''A'' \<le> c \<and> c \<le> CHR ''Z'')
         \<or> (CHR ''0'' \<le> c \<and> c \<le> CHR ''9'') then False
      else if c = CHR ''-'' \<or> c = CHR ''_'' \<or> c = CHR ''.'' \<or> c = CHR ''~'' then False
      else True)"

definition escape_byte :: "char \<Rightarrow> string" where
  "escape_byte c =
     (if c = CHR '' '' then ''+''
      else if shouldEscape c
        then [CHR ''%'', upperhex ! (of_char c div 16), upperhex ! (of_char c mod 16)]
      else [c])"

definition QueryEscape :: "string \<Rightarrow> string" where
  "QueryEscape s = concat (map escape_byte s)"

text \<open>\<open>QueryUnescape\<close>: \<open>None\<close> is the \<open>EscapeError\<close> of a \<open>%\<close> that is not
  followed by two hex digits.\<close>

fun QueryUnescape :: "string \<Rightarrow> string option" where
  "QueryUnescape [] = Some []"
| "QueryUnescape (c # cs) =
     (if c = CHR ''%'' then
        (case cs of
           h1 # h2 # rest \<Rightarrow>
             (if ishex h1 \<and> ishex h2
              then map_option ((#) (char_of (unhex h1 * 16 + unhex h2))) (QueryUnescape rest)
              else None)
         | _ \<Rightarrow> None)
      else if c = CHR ''+'' then map_option ((#) CHR '' '') (QueryUnescape cs)
      else map_option ((#) c) (QueryUnescape cs))"

text \<open>\<open>strings.Cut\<close> at a one-byte separator: the text before the first separator
  and the text after it.\<close>

definition Cut :: "string \<Rightarrow> char \<Rightarrow> string \<times> string" where
  "Cut s sep = (takeWhile (\<lambda>c. c \<noteq> sep) s, drop 1 (dropWhile (\<lambda>c. c \<noteq> sep) s))"

definition Values_Get :: "Values \<Rightarrow> string \<Rightarrow> string list option" where
  "Values_Get v key = map_of v key"


definition Values_Del :: "Values \<Rightarrow> string \<Rightarrow> Values" where
  "Values_Del v key = filter (\<lambda>p. fst p \<noteq> key) v"

text \<open>\<open>m[key] = append(m[key], value)\<close>\<close>

definition Values_append :: "Values \<Rightarrow> string \<Rightarrow> string \<Rightarrow> Values" where
  "Values_append m key val =
     (case map_of m key of
        None \<Rightarrow> m @ [(key, [val])]
      | Some vs \<Rightarrow> map (\<lambda>p. if fst p = key then (fst p, snd p @ [val]) else p) m)"

text \<open>The loop of \<open>parseQuery\<close>; its error result is dropped by \<open>URL.Query()\<close>, so
  a malformed pair is skipped.\<close>

function parseQuery :: "Values \<Rightarrow> string \<Rightarrow> Values" where
  "parseQuery m query =
     (if query = [] then m
      else
        (let (key, rest) = Cut query CHR ''&'' in
         if CHR '';'' \<in> set key then parseQuery m rest
         else if key = [] then parseQuery m rest
         else
           (let (k, v) = Cut key CHR ''='' in
            case QueryUnescape k of
              None \<Rightarrow> parseQuery m rest
            | Some key1 \<Rightarrow>
                (case QueryUnescape v of
                   None \<Rightarrow> parseQuery m rest
                 | Some value1 \<Rightarrow> parseQuery (Values_append m key1 value1) rest))))"
  by pat_completeness auto
termination
proof (relation "measure (\<lambda>(m, query). length query)", goal_cases)
  case 1
  show ?case by simp
next
  case (2 m query x xa y)
  have "length (dropWhile (\<lambda>c. c \<noteq> CHR ''&'') query) \<le> length query"
    by (rule length_dropWhile_le)
  with 2 show ?case by (cases query) (auto simp: Cut_def)
next
  case (3 m query x xa y)
  have "length (dropWhile (\<lambda>c. c \<noteq> CHR ''&'') query) \<le> length query"
    by (rule length_dropWhile_le)
  with 3 show ?case by (cases query) (auto simp: Cut_def)
next
  case (4 m query x xa y xb xaa ya)
  have "length (dropWhile (\<lambda>c. c \<noteq> CHR ''&'') query) \<le> length query"
    by (rule length_dropWhile_le)
  with 4 show ?case by (cases query) (auto simp: Cut_def)
next
  case (5 m query x xa y xb xaa ya x2)
  have "length (dropWhile (\<lambda>c. c \<noteq> CHR ''&'') query) \<le> length query"
    by (rule length_dropWhile_le)
  with 5 show ?case by (cases query) (auto simp: Cut_def)
next
  case (6 m query x xa y xb xaa ya x2 x2a)
  have "length (dropWhile (\<lambda>c. c \<noteq> CHR ''&'') query) \<le> length query"
    by (rule length_dropWhile_le)
  with 6 show ?case by (cases query) (auto simp: Cut_def)
qed


declare parseQuery.simps [simp del]

text \<open>\<open>URL.Query()\<close> parses \<open>RawQuery\<close> into a fresh map.\<close>

definition Query :: "string \<Rightarrow> Values" where
  "Query rawQuery = parseQuery [] rawQuery"

fun join_amp :: "string list \<Rightarrow> string" where
  "join_amp [] = []"
| "join_amp [s] = s"
| "join_amp (s # t # ss) = s @ CHR ''&'' # join_amp (t # ss)"

text \<open>\<open>Values.Encode\<close>: the keys in sorted order, each value of a key as
  \<open>key=value\<close>, both escaped, joined by \<open>&\<close>.\<close>

definition Encode :: "Values \<Rightarrow> string" where
  "Encode v =
     join_amp (concat (map
       (\<lambda>k. map (\<lambda>val. QueryEscape k @ ''='' @ QueryEscape val)
                (case map_of v k of None \<Rightarrow> [] | Some vs \<Rightarrow> vs))
       (sort (remdups (map fst v)))))"

text \<open>The pairs that \<open>Encode\<close> writes, in the order it writes them, and one pair as
  written.\<close>

definition pairs_of :: "Values \<Rightarrow> (string \<times> string) list" where
  "pairs_of v =
     concat (map (\<lambda>k. map (Pair k) (case map_of v k of None \<Rightarrow> [] | Some vs \<Rightarrow> vs))
       (sort (remdups (map fst v))))"

definition enc_pair :: "string \<times> string \<Rightarrow> string" where
  "enc_pair p = QueryEscape (fst p) @ ''='' @ QueryEscape (snd p)"

subsection \<open>The handler\<close>

fun path_String :: "datamodel_path \<Rightarrow> string" where
  "path_String [] = []"
| "path_String [s] = s"
| "path_String (s # t # ss) = s @ CHR ''/'' # path_String (t # ss)"

text \<open>The body of the goroutine (lines 83 to 94): the writer is wrapped so that
  \<open>Write\<close> is \<open>wr.Write\<close>, the request is cloned with the cancellable context,
  \<open>entity-bytes\<close> is deleted from its query, and \<open>next\<close> is called.\<close>

definition clonedReq :: "ctx \<Rightarrow> request \<Rightarrow> request" where
  "clonedReq c req =
     (let cloned = req\<lparr>Context := c\<rparr>;
          q = Query (URL_RawQuery cloned);
          q = Values_Del q ''entity-bytes''
      in cloned\<lparr>URL_RawQuery := Encode q\<rparr>)"

definition wrappedWriter :: "response_writer \<Rightarrow> response_writer" where
  "wrappedWriter res = res\<lparr>Write_sink := PipeWriteEnd\<rparr>"

definition producer :: "response_writer \<Rightarrow> ctx \<Rightarrow> request \<Rightarrow> event list" where
  "producer res c req = [Next (wrappedWriter res) (clonedReq c req)]"

text \<open>Lines 36 to 114: the path taken when \<open>byteRange\<close> is not nil.\<close>

definition ranged :: "env \<Rightarrow> response_writer \<Rightarrow> request \<Rightarrow> byte_range \<Rightarrow> event list" where
  "ranged e res req byteRange =
     (case ParseUrlPath e (URL_Path req) of
        Inl err \<Rightarrow>
          (if errors_Is err ErrPathNotFound then [HttpError res (Error err) StatusNotFound]
           else if errors_Is err ErrBadCid then [HttpError res (Error err) StatusBadRequest]
           else [HttpError res (Error err) StatusInternalServerError])
      | Inr (rootCid, path) \<Rightarrow>
          (case CheckFormat e req of
             Inl err \<Rightarrow> [HttpError res (Error err) StatusBadRequest]
           | Inr accept \<Rightarrow>
               (case ParseScope e req of
                  Inl err \<Rightarrow> [HttpError res (Error err) StatusBadRequest]
                | Inr dagScope \<Rightarrow>
                    (let carOpts = \<lparr>WriteAsCarV1 = True, AllowDuplicatePuts = Duplicates accept\<rparr> in
                     NewWritableCall res [rootCid] carOpts #
                     (case NewWritable e res [rootCid] carOpts of
                        Some err \<Rightarrow> [HttpError res (Error err) StatusInternalServerError]
                      | None \<Rightarrow>
                          (let linkSystem =
                                 \<lparr>WriteStorage = Some \<lparr>writer = res, roots = [rootCid], opts = carOpts\<rparr>,
                                  TrustedStorage = True, UnixFSReification = True\<rparr>;
                               c = WithCancel (Context req);
                               request =
                                 \<lparr>Root = rootCid, Path = path_String path, Scope = dagScope,
                                  Bytes = Some byteRange, Req_Duplicates = Duplicates accept\<rparr>;
                               cfg =
                                 \<lparr>Cfg_Root = rootCid, Cfg_Selector = Selector request,
                                  ExpectDuplicatesIn = Duplicates accept,
                                  WriteDuplicatesOut = Duplicates accept,
                                  UnsafeSkipUnexpected = True\<rparr>;
                               discarded = VerifyCarResult e cfg linkSystem
                           in [Go (producer res c req),
                               VerifyCar cfg (Context req) PipeReadEnd linkSystem,
                               Cancel c]))))))"

text \<open>Lines 24 to 34. After \<open>http.Error\<close> on a parse error the function goes on to
  the test of \<open>byteRange\<close>: there is no \<open>return\<close> in that branch.\<close>

definition handler :: "env \<Rightarrow> response_writer \<Rightarrow> request \<Rightarrow> event list" where
  "handler e res req =
     (let (byteRange, err) = ParseByteRange e req in
      (case err of
         Some er \<Rightarrow> [HttpError res (Error er) StatusBadRequest]
       | None \<Rightarrow> []) @
      (case byteRange of
         None \<Rightarrow> [Next res req]
       | Some br \<Rightarrow> ranged e res req br))"


subsection \<open>Reading a run\<close>

text \<open>Every effect of a run, the effects inside goroutine bodies included.\<close>

fun events_of :: "event \<Rightarrow> event list" where
  "events_of (Go body) = Go body # concat (map events_of body)"
| "events_of ev = [ev]"

definition all_events :: "event list \<Rightarrow> event list" where
  "all_events tr = concat (map events_of tr)"

fun next_call :: "event \<Rightarrow> (response_writer \<times> request) list" where
  "next_call (Next w r) = [(w, r)]"
| "next_call ev = []"

text \<open>The invocations of the underlying handler in a run, wherever they happen.\<close>

definition next_calls :: "event list \<Rightarrow> (response_writer \<times> request) list" where
  "next_calls tr = concat (map next_call (all_events tr))"

fun go_body :: "event \<Rightarrow> event list list" where
  "go_body (Go body) = [body]"
| "go_body ev = []"

text \<open>The goroutines a run starts, each as the effects of its body.\<close>

definition spawned :: "event list \<Rightarrow> event list list" where
  "spawned tr = concat (map go_body (all_events tr))"

fun http_error :: "event \<Rightarrow> (string \<times> nat) list" where
  "http_error (HttpError w m code) = [(m, code)]"
| "http_error ev = []"

text \<open>The \<open>http.Error\<close> replies of a run: message and status.\<close>

definition http_errors :: "event list \<Rightarrow> (string \<times> nat) list" where
  "http_errors tr = concat (map http_error (all_events tr))"

fun is_Log :: "event \<Rightarrow> bool" where
  "is_Log (Log m) = True"
| "is_Log ev = False"

fun is_VerifyCar :: "event \<Rightarrow> bool" where
  "is_VerifyCar (VerifyCar cfg c r ls) = True"
| "is_VerifyCar ev = False"

text \<open>What the main flow does once \<open>VerifyCar\<close> has returned.\<close>

definition after_VerifyCar :: "event list \<Rightarrow> event list" where
  "after_VerifyCar tr = drop 1 (dropWhile (\<lambda>ev. \<not> is_VerifyCar ev) tr)"

fun verify_outcome :: "env \<Rightarrow> event \<Rightarrow> error option list" where
  "verify_outcome e (VerifyCar cfg c r ls) = [VerifyCarResult e cfg ls]"
| "verify_outcome e ev = []"

text \<open>What each call of \<open>VerifyCar\<close> in a run returns as its error.\<close>

definition verify_outcomes :: "env \<Rightarrow> event list \<Rightarrow> error option list" where
  "verify_outcomes e tr = concat (map (verify_outcome e) (all_events tr))"

fun writable_opts :: "event \<Rightarrow> car_options list" where
  "writable_opts (NewWritableCall w rs co) = [co]"
| "writable_opts ev = []"

fun traversal_cfg :: "event \<Rightarrow> traversal_config list" where
  "traversal_cfg (VerifyCar cfg c r ls) = [cfg]"
| "traversal_cfg ev = []"

text \<open>The run of the underlying handler alone on a writer and a request: the reference
  for the pass-through.\<close>

definition underlying_alone :: "response_writer \<Rightarrow> request \<Rightarrow> event list" where
  "underlying_alone w r = [Next w r]"

subsection \<open>The pipe between the goroutine and the traversal\<close>

text \<open>
  \<open>io.Pipe()\<close> is synchronous and unbuffered: a \<open>Write\<close> blocks until readers have
  consumed all of its data or the read end is closed; a \<open>Read\<close> blocks until a writer
  arrives or the write end is closed. The goroutine is the only writer and the traversal
  the only reader. The state below holds what each side is doing and the data of the
  \<open>Write\<close> in progress.
\<close>

datatype pipe_op = PipeWrite string | PipeCloseWrite

datatype producer = Ready "pipe_op list" | InWrite "pipe_op list"

datatype consumer = Reading nat | Returned

record pipe_system =
  Producer :: producer
  Inflight :: "string option"
  WriteClosed :: bool
  ReadClosed :: bool
  Consumer :: consumer
  Deferred :: "event list"

text \<open>The goroutine: \<open>Ready []\<close> has returned. A \<open>Write\<close> on a closed pipe returns
  an error at once; otherwise it hands its data over and blocks (\<open>InWrite\<close>) until the
  data is consumed or the read end is closed.\<close>

definition producer_steps :: "pipe_system \<Rightarrow> pipe_system list" where
  "producer_steps s =
     (case Producer s of
        Ready [] \<Rightarrow> []
      | Ready (PipeCloseWrite # ops) \<Rightarrow> [s\<lparr>Producer := Ready ops, WriteClosed := True\<rparr>]
      | Ready (PipeWrite b # ops) \<Rightarrow>
          (if ReadClosed s \<or> WriteClosed s then [s\<lparr>Producer := Ready ops\<rparr>]
           else [s\<lparr>Producer := InWrite ops, Inflight := Some b\<rparr>])
      | InWrite ops \<Rightarrow>
          (if ReadClosed s then [s\<lparr>Producer := Ready ops, Inflight := None\<rparr>]
           else if Inflight s = None then [s\<lparr>Producer := Ready ops\<rparr>]
           else []))"

fun closes_read_end :: "event \<Rightarrow> bool" where
  "closes_read_end (PipeClose ReadEnd) = True"
| "closes_read_end ev = False"

text \<open>The main flow: the traversal needs \<open>n\<close> more bytes (\<open>Reading n\<close>); it takes
  them from the \<open>Write\<close> in progress, sees end-of-stream when the write end is closed,
  and blocks otherwise. Once it has returned, the rest of the handler runs.\<close>

definition consumer_steps :: "pipe_system \<Rightarrow> pipe_system list" where
  "consumer_steps s =
     (case Consumer s of
        Returned \<Rightarrow>
          (case Deferred s of
             [] \<Rightarrow> []
           | ev # evs \<Rightarrow>
               [s\<lparr>Deferred := evs, ReadClosed := (ReadClosed s \<or> closes_read_end ev)\<rparr>])
      | Reading n \<Rightarrow>
          (if n = 0 then [s\<lparr>Consumer := Returned\<rparr>]
           else
             (case Inflight s of
                Some b \<Rightarrow>
                  [s\<lparr>Inflight := (if n < length b then Some (drop n b) else None),
                     Consumer := Reading (n - length b)\<rparr>]
              | None \<Rightarrow> (if WriteClosed s then [s\<lparr>Consumer := Returned\<rparr>] else []))))"

definition steps :: "pipe_system \<Rightarrow> pipe_system list" where
  "steps s = producer_steps s @ consumer_steps s"

text \<open>The request is over when the handler has returned and run its deferred calls; the
  goroutine is over when it has returned.\<close>

definition handler_returned :: "pipe_system \<Rightarrow> bool" where
  "handler_returned s = (Consumer s = Returned \<and> Deferred s = [])"

definition producer_returned :: "pipe_system \<Rightarrow> bool" where
  "producer_returned s = (Producer s = Ready [])"

text \<open>Nothing can move and one side has not returned: it is blocked for good.\<close>

definition blocked_forever :: "pipe_system \<Rightarrow> bool" where
  "blocked_forever s = (steps s = [] \<and> \<not> (handler_returned s \<and> producer_returned s))"

text \<open>The states in which a run can end, within \<open>n\<close> steps.\<close>

fun final_states :: "nat \<Rightarrow> pipe_system \<Rightarrow> pipe_system list" where
  "final_states 0 s = (if steps s = [] then [s] else [])"
| "final_states (Suc n) s =
     (if steps s = [] then [s] else concat (map (final_states n) (steps s)))"

text \<open>The states a run has not left after \<open>n\<close> steps: empty when every run is over by
  then.\<close>

fun unfinished :: "nat \<Rightarrow> pipe_system \<Rightarrow> pipe_system list" where
  "unfinished 0 s = (if steps s = [] then [] else [s])"
| "unfinished (Suc n) s = concat (map (unfinished n) (steps s))"

text \<open>The states a run can pass through.\<close>

inductive reachable :: "pipe_system \<Rightarrow> pipe_system \<Rightarrow> bool" for s :: pipe_system where
  reach_start: "reachable s s"
| reach_step: "reachable s t \<Longrightarrow> u \<in> set (steps t) \<Longrightarrow> reachable s u"

fun ops_left :: "producer \<Rightarrow> pipe_op list" where
  "ops_left (Ready ops) = ops"
| "ops_left (InWrite ops) = ops"

fun bytes_of_op :: "pipe_op \<Rightarrow> nat" where
  "bytes_of_op (PipeWrite b) = length b"
| "bytes_of_op PipeCloseWrite = 0"

text \<open>The bytes the goroutine can still deliver: those of the \<open>Write\<close> in progress
  and those of the writes to come.\<close>

definition bytes_to_come :: "pipe_system \<Rightarrow> nat" where
  "bytes_to_come s =
     (case Inflight s of None \<Rightarrow> 0 | Some b \<Rightarrow> length b)
     + sum_list (map bytes_of_op (ops_left (Producer s)))"

text \<open>Both ends are open, the goroutine will close nothing, and the traversal waits for
  more bytes than the goroutine can still deliver.\<close>

definition starved :: "pipe_system \<Rightarrow> bool" where
  "starved s =
     (\<not> WriteClosed s \<and> \<not> ReadClosed s \<and> PipeCloseWrite \<notin> set (ops_left (Producer s))
      \<and> (case Producer s of Ready ops \<Rightarrow> Inflight s = None | InWrite ops \<Rightarrow> True)
      \<and> (case Consumer s of Reading n \<Rightarrow> bytes_to_come s < n | Returned \<Rightarrow> False))"

text \<open>What a goroutine body does to the write end of the pipe.\<close>

fun producer_ops :: "env \<Rightarrow> event \<Rightarrow> pipe_op list" where
  "producer_ops e (Next w r) =
     (if Write_sink w = PipeWriteEnd then map PipeWrite (NextWrites e r) else [])"
| "producer_ops e (PipeClose WriteEnd) = [PipeCloseWrite]"
| "producer_ops e ev = []"

text \<open>The two sides as a run of the handler sets them up.\<close>

definition pipe_of_run :: "env \<Rightarrow> event list \<Rightarrow> pipe_system" where
  "pipe_of_run e tr =
     \<lparr>Producer = Ready (concat (map (producer_ops e) (concat (spawned tr)))),
      Inflight = None, WriteClosed = False, ReadClosed = False,
      Consumer = Reading (sum_list (map (VerifyCarNeeds e) (concat (map traversal_cfg tr)))),
      Deferred = after_VerifyCar tr\<rparr>"

fun is_PipeClose :: "event \<Rightarrow> bool" where
  "is_PipeClose (PipeClose pe) = True"
| "is_PipeClose ev = False"

subsection \<open>The bytes of the response body\<close>

text \<open>\<open>binary.PutUvarint\<close>: seven bits a byte, low bits first, the top bit set on all
  but the last byte.\<close>

function uvarint :: "nat \<Rightarrow> string" where
  "uvarint x = (if x < 128 then [char_of x] else char_of (x mod 128 + 128) # uvarint (x div 128))"
  by pat_completeness auto
termination
  by (relation "measure (\<lambda>x. x)") auto

declare uvarint.simps [simp del]

text \<open>A CARv1 header as \<open>carv1.WriteHeader\<close> writes it: the length of the DAG-CBOR
  header as a uvarint, then the header.\<close>

definition CarV1Header :: "env \<Rightarrow> cid list \<Rightarrow> string" where
  "CarV1Header e rs = uvarint (length (CarHeaderPayload e rs)) @ CarHeaderPayload e rs"




subsection \<open>Sample inputs\<close>

definition clientWriter :: response_writer where
  "clientWriter = \<lparr>Write_sink = ClientConn, WriteHeader_sink = ClientConn\<rparr>"

definition get_request :: "string \<Rightarrow> string \<Rightarrow> request" where
  "get_request path rawQuery =
     \<lparr>Method = ''GET'', URL_Path = path, URL_RawQuery = rawQuery,
      Header = [(''Accept'', [''application/vnd.ipld.car''])],
      Context = BaseContext ''request''\<rparr>"

text \<open>An environment in which every collaborator returns a fixed result. The underlying
  handler writes nothing and the traversal waits for one byte.\<close>

definition fixed_env ::
  "byte_range option \<times> error option \<Rightarrow> error + (cid \<times> datamodel_path) \<Rightarrow> error + content_type
    \<Rightarrow> error + dag_scope \<Rightarrow> error option \<Rightarrow> error option \<Rightarrow> env" where
  "fixed_env br pth fmt sc wr vc =
     \<lparr>ParseByteRange = (\<lambda>_. br), ParseUrlPath = (\<lambda>_. pth), CheckFormat = (\<lambda>_. fmt),
      ParseScope = (\<lambda>_. sc), NewWritable = (\<lambda>_ _ _. wr), VerifyCarResult = (\<lambda>_ _. vc),
      NextWrites = (\<lambda>_. []), VerifyCarNeeds = (\<lambda>_. 1), CarHeaderPayload = (\<lambda>_. []),
      VerifyCarWrites = (\<lambda>_ _. [])\<rparr>"

definition range_0_10 :: byte_range where
  "range_0_10 = \<lparr>From = 0, To = Some 10\<rparr>"

definition car_dups :: content_type where
  "car_dups = \<lparr>Mime = ''application/vnd.ipld.car'', Duplicates = True\<rparr>"

text \<open>The parsers and the CAR storage constructor succeed; the traversal returns the
  given error, if any.\<close>

definition ok_env :: "error option \<Rightarrow> env" where
  "ok_env vc =
     fixed_env (Some range_0_10, None) (Inr (''bafyroot'', [''a'', ''b''])) (Inr car_dups)
       (Inr DagScopeEntity) None vc"

text \<open>\<open>entity-bytes\<close> is present and malformed: no range and an error.\<close>

definition malformed_env :: env where
  "malformed_env =
     fixed_env (None, Some (ErrOther ''invalid entity-bytes parameter''))
       (Inr (''bafyroot'', [''a'', ''b''])) (Inr car_dups) (Inr DagScopeEntity) None None"

text \<open>The underlying handler writes five bytes in two chunks; the traversal returns after
  four.\<close>

definition early_return_env :: env where
  "early_return_env =
     (ok_env None)\<lparr>NextWrites := (\<lambda>_. [''abc'', ''de'']), VerifyCarNeeds := (\<lambda>_. 4)\<rparr>"

text \<open>The underlying handler writes five bytes and returns; the traversal waits for
  nine.\<close>

definition short_stream_env :: env where
  "short_stream_env =
     (ok_env None)\<lparr>NextWrites := (\<lambda>_. [''abc'', ''de'']), VerifyCarNeeds := (\<lambda>_. 9)\<rparr>"



definition range_request :: request where
  "range_request = get_request ''/ipfs/bafyroot/a/b'' ''entity-bytes=0:10''"



section \<open>Properties of the handler\<close>

subsection \<open>The three ways through the first ten lines\<close>

lemma handler_no_range:
  "ParseByteRange e req = (None, None) \<Longrightarrow> handler e res req = [Next res req]"
  by (simp add: handler_def)

lemma handler_error_no_range:
  "ParseByteRange e req = (None, Some er) \<Longrightarrow>
   handler e res req = [HttpError res (Error er) StatusBadRequest, Next res req]"
  by (simp add: handler_def)

lemma handler_ranged:
  "ParseByteRange e req = (Some br, None) \<Longrightarrow> handler e res req = ranged e res req br"
  by (simp add: handler_def)

lemma handler_error_ranged:
  "ParseByteRange e req = (Some br, Some er) \<Longrightarrow>
   handler e res req = HttpError res (Error er) StatusBadRequest # ranged e res req br"
  by (simp add: handler_def)

lemmas run_defs = spawned_def next_calls_def http_errors_def all_events_def verify_outcomes_def

subsection \<open>Malformed range\<close>

text \<open>
  C1: a request whose byte-range parameter is malformed gets a bad-request reply and the
  underlying handler is not invoked. The code writes the reply and does not return: with
  \<open>byteRange\<close> nil it goes on to call \<open>next\<close> with the original writer and request.
  The run at a request with \<open>entity-bytes=abc\<close>:
\<close>

theorem malformed_range_reaches_next:
  "handler malformed_env clientWriter (get_request ''/ipfs/bafyroot/a/b'' ''entity-bytes=abc'')
   = [HttpError clientWriter ''invalid entity-bytes parameter'' StatusBadRequest,
      Next clientWriter (get_request ''/ipfs/bafyroot/a/b'' ''entity-bytes=abc'')]"
  by (simp add: handler_def malformed_env_def fixed_env_def)

subsection \<open>Failures while the request descriptor is built\<close>

text \<open>
  C5: on a ranged request for which the path, the format, the scope or the construction
  of the CAR writer fails, the handler returns before the goroutine is started: the run
  starts no goroutine and holds no call of the underlying handler.
\<close>

theorem descriptor_failure_starts_no_producer:
  assumes "ParseByteRange e req = (Some br, err)"
    and "(\<exists>er. ParseUrlPath e (URL_Path req) = Inl er)
       \<or> (\<exists>er. CheckFormat e req = Inl er)
       \<or> (\<exists>er. ParseScope e req = Inl er)
       \<or> (\<exists>root path accept er. ParseUrlPath e (URL_Path req) = Inr (root, path)
            \<and> CheckFormat e req = Inr accept
            \<and> NewWritable e res [root]
                 \<lparr>WriteAsCarV1 = True, AllowDuplicatePuts = Duplicates accept\<rparr> = Some er)"
  shows "spawned (handler e res req) = [] \<and> next_calls (handler e res req) = []"
proof -
  have "spawned (ranged e res req br) = [] \<and> next_calls (ranged e res req br) = []"
    using assms(2)
    by (auto simp: ranged_def run_defs Let_def split: sum.splits option.splits prod.splits)
  then show ?thesis using assms(1)
    by (cases err) (auto simp: handler_def run_defs)
qed

theorem descriptor_failure_starts_no_producer_witness:
  "next_calls (handler (fixed_env (Some range_0_10, None) (Inl ErrPathNotFound) (Inr car_dups)
       (Inr DagScopeAll) None None) clientWriter (get_request ''/nope'' ''entity-bytes=0:10'')) = []
   \<and> next_calls (handler (fixed_env (Some range_0_10, None) (Inr (''bafyroot'', []))
       (Inl (ErrOther ''invalid Accept header'')) (Inr DagScopeAll) None None)
       clientWriter (get_request ''/ipfs/bafyroot'' ''entity-bytes=0:10'')) = []
   \<and> next_calls (handler (fixed_env (Some range_0_10, None) (Inr (''bafyroot'', []))
       (Inr car_dups) (Inl (ErrOther ''invalid dag-scope parameter'')) None None)
       clientWriter (get_request ''/ipfs/bafyroot'' ''entity-bytes=0:10'')) = []
   \<and> next_calls (handler (fixed_env (Some range_0_10, None) (Inr (''bafyroot'', []))
       (Inr car_dups) (Inr DagScopeAll) (Some (ErrOther ''write failed'')) None)
       clientWriter (get_request ''/ipfs/bafyroot'' ''entity-bytes=0:10'')) = []"
proof -
  let ?r = "get_request ''/ipfs/bafyroot'' ''entity-bytes=0:10''"
  let ?e1 = "fixed_env (Some range_0_10, None) (Inl ErrPathNotFound) (Inr car_dups)
       (Inr DagScopeAll) None None"
  let ?e2 = "fixed_env (Some range_0_10, None) (Inr (''bafyroot'', []))
       (Inl (ErrOther ''invalid Accept header'')) (Inr DagScopeAll) None None"
  let ?e3 = "fixed_env (Some range_0_10, None) (Inr (''bafyroot'', []))
       (Inr car_dups) (Inl (ErrOther ''invalid dag-scope parameter'')) None None"
  let ?e4 = "fixed_env (Some range_0_10, None) (Inr (''bafyroot'', []))
       (Inr car_dups) (Inr DagScopeAll) (Some (ErrOther ''write failed'')) None"
  have 1: "next_calls (handler ?e1 clientWriter (get_request ''/nope'' ''entity-bytes=0:10'')) = []"
    using descriptor_failure_starts_no_producer
      [of ?e1 "get_request ''/nope'' ''entity-bytes=0:10''" range_0_10 None clientWriter]
    by (simp add: fixed_env_def)
  have 2: "next_calls (handler ?e2 clientWriter ?r) = []"
    using descriptor_failure_starts_no_producer [of ?e2 ?r range_0_10 None clientWriter]
    by (simp add: fixed_env_def)
  have 3: "next_calls (handler ?e3 clientWriter ?r) = []"
    using descriptor_failure_starts_no_producer [of ?e3 ?r range_0_10 None clientWriter]
    by (simp add: fixed_env_def)
  have 4: "next_calls (handler ?e4 clientWriter ?r) = []"
    using descriptor_failure_starts_no_producer [of ?e4 ?r range_0_10 None clientWriter]
    by (simp add: fixed_env_def)
  from 1 2 3 4 show ?thesis by simp
qed

subsection \<open>No range parameter\<close>

text \<open>
  C6: a request with no byte-range parameter is passed through: the run of the handler
  is the run of the underlying handler alone on the original writer and request, one
  synchronous call and no goroutine.
\<close>

theorem passthrough_without_range:
  assumes "ParseByteRange e req = (None, None)"
  shows "handler e res req = underlying_alone res req \<and> spawned (handler e res req) = []
    \<and> next_calls (handler e res req) = [(res, req)]"
  using assms by (simp add: handler_def underlying_alone_def run_defs)

theorem passthrough_without_range_witness:
  "handler (fixed_env (None, None) (Inl ErrBadCid) (Inl ErrBadCid) (Inl ErrBadCid) None None)
     clientWriter (get_request ''/ipfs/bafyroot'' ''format=car'')
   = underlying_alone clientWriter (get_request ''/ipfs/bafyroot'' ''format=car'')"
proof -
  have h: "ParseByteRange
       (fixed_env (None, None) (Inl ErrBadCid) (Inl ErrBadCid) (Inl ErrBadCid) None None)
       (get_request ''/ipfs/bafyroot'' ''format=car'') = (None, None)"
    by (simp add: fixed_env_def)
  from passthrough_without_range [OF h] show ?thesis by simp
qed


subsection \<open>Statuses of the parse failures\<close>

text \<open>
  C7: on a ranged request whose path does not parse the reply is not-found for
  \<open>ErrPathNotFound\<close>, bad request for \<open>ErrBadCid\<close> and internal error for any
  other error; a format that \<open>CheckFormat\<close> rejects is answered with bad request.
\<close>

theorem path_and_format_failures_status:
  assumes "ParseByteRange e req = (Some br, None)"
  shows "(ParseUrlPath e (URL_Path req) = Inl ErrPathNotFound \<longrightarrow>
            handler e res req = [HttpError res (Error ErrPathNotFound) StatusNotFound])
       \<and> (ParseUrlPath e (URL_Path req) = Inl ErrBadCid \<longrightarrow>
            handler e res req = [HttpError res (Error ErrBadCid) StatusBadRequest])
       \<and> (\<forall>m. ParseUrlPath e (URL_Path req) = Inl (ErrOther m) \<longrightarrow>
            handler e res req = [HttpError res m StatusInternalServerError])
       \<and> (\<forall>p er. ParseUrlPath e (URL_Path req) = Inr p \<and> CheckFormat e req = Inl er \<longrightarrow>
            handler e res req = [HttpError res (Error er) StatusBadRequest])"
  using assms
  by (auto simp: handler_def ranged_def errors_Is_def split: prod.splits)

theorem path_and_format_failures_status_witness:
  "http_errors (handler (fixed_env (Some range_0_10, None) (Inl ErrPathNotFound) (Inr car_dups)
       (Inr DagScopeAll) None None) clientWriter (get_request ''/nope'' ''entity-bytes=0:10''))
     = [(''not found'', 404)]
   \<and> http_errors (handler (fixed_env (Some range_0_10, None) (Inl ErrBadCid) (Inr car_dups)
       (Inr DagScopeAll) None None) clientWriter (get_request ''/ipfs/zzz'' ''entity-bytes=0:10''))
     = [(''failed to parse root CID'', 400)]
   \<and> http_errors (handler (fixed_env (Some range_0_10, None) (Inl (ErrOther ''boom'')) (Inr car_dups)
       (Inr DagScopeAll) None None) clientWriter (get_request ''/ipfs/zzz'' ''entity-bytes=0:10''))
     = [(''boom'', 500)]
   \<and> http_errors (handler (fixed_env (Some range_0_10, None) (Inr (''bafyroot'', []))
       (Inl (ErrOther ''invalid Accept header'')) (Inr DagScopeAll) None None)
       clientWriter (get_request ''/ipfs/bafyroot'' ''entity-bytes=0:10''))
     = [(''invalid Accept header'', 400)]"
proof -
  let ?e1 = "fixed_env (Some range_0_10, None) (Inl ErrPathNotFound) (Inr car_dups)
       (Inr DagScopeAll) None None"
  let ?e2 = "fixed_env (Some range_0_10, None) (Inl ErrBadCid) (Inr car_dups)
       (Inr DagScopeAll) None None"
  let ?e3 = "fixed_env (Some range_0_10, None) (Inl (ErrOther ''boom'')) (Inr car_dups)
       (Inr DagScopeAll) None None"
  let ?e4 = "fixed_env (Some range_0_10, None) (Inr (''bafyroot'', []))
       (Inl (ErrOther ''invalid Accept header'')) (Inr DagScopeAll) None None"
  have 1: "http_errors (handler ?e1 clientWriter (get_request ''/nope'' ''entity-bytes=0:10''))
      = [(''not found'', 404)]"
    using path_and_format_failures_status
      [of ?e1 "get_request ''/nope'' ''entity-bytes=0:10''" range_0_10 clientWriter]
    by (simp add: fixed_env_def run_defs StatusNotFound_def)
  have 2: "http_errors (handler ?e2 clientWriter (get_request ''/ipfs/zzz'' ''entity-bytes=0:10''))
      = [(''failed to parse root CID'', 400)]"
    using path_and_format_failures_status
      [of ?e2 "get_request ''/ipfs/zzz'' ''entity-bytes=0:10''" range_0_10 clientWriter]
    by (simp add: fixed_env_def run_defs StatusBadRequest_def)
  have 3: "http_errors (handler ?e3 clientWriter (get_request ''/ipfs/zzz'' ''entity-bytes=0:10''))
      = [(''boom'', 500)]"
    using path_and_format_failures_status
      [of ?e3 "get_request ''/ipfs/zzz'' ''entity-bytes=0:10''" range_0_10 clientWriter]
    by (simp add: fixed_env_def run_defs StatusInternalServerError_def)
  have 4: "http_errors (handler ?e4 clientWriter (get_request ''/ipfs/bafyroot'' ''entity-bytes=0:10''))
      = [(''invalid Accept header'', 400)]"
    using path_and_format_failures_status
      [of ?e4 "get_request ''/ipfs/bafyroot'' ''entity-bytes=0:10''" range_0_10 clientWriter]
    by (simp add: fixed_env_def run_defs StatusBadRequest_def)
  from 1 2 3 4 show ?thesis by simp
qed

subsection \<open>The duplicate-block policy\<close>

text \<open>
  C9: on a ranged request the value \<open>accept.Duplicates\<close> that \<open>CheckFormat\<close>
  returned is the one given to \<open>AllowDuplicatePuts\<close> of the CAR writer, to the
  \<open>Duplicates\<close> field of the trustless request behind the selector, and to
  \<open>ExpectDuplicatesIn\<close> and \<open>WriteDuplicatesOut\<close> of the traversal.
\<close>

theorem duplicates_policy_consistent:
  assumes "ParseByteRange e req = (Some br, err)"
    and "CheckFormat e req = Inr accept"
  shows "(\<forall>co \<in> set (concat (map writable_opts (all_events (handler e res req)))).
            AllowDuplicatePuts co = Duplicates accept)
       \<and> (\<forall>cfg \<in> set (concat (map traversal_cfg (all_events (handler e res req)))).
            ExpectDuplicatesIn cfg = Duplicates accept
          \<and> WriteDuplicatesOut cfg = Duplicates accept
          \<and> (\<exists>rq. Cfg_Selector cfg = Selector rq \<and> Req_Duplicates rq = Duplicates accept))"
proof -
  have "(\<forall>co \<in> set (concat (map writable_opts (all_events (ranged e res req br)))).
            AllowDuplicatePuts co = Duplicates accept)
       \<and> (\<forall>cfg \<in> set (concat (map traversal_cfg (all_events (ranged e res req br)))).
            ExpectDuplicatesIn cfg = Duplicates accept
          \<and> WriteDuplicatesOut cfg = Duplicates accept
          \<and> (\<exists>rq. Cfg_Selector cfg = Selector rq \<and> Req_Duplicates rq = Duplicates accept))"
    using assms(2)
    by (auto simp: ranged_def run_defs Let_def producer_def
             split: sum.splits option.splits prod.splits)
  then show ?thesis using assms(1)
    by (cases err) (simp_all add: handler_def run_defs)
qed

theorem duplicates_policy_consistent_witness:
  "map AllowDuplicatePuts (concat (map writable_opts (all_events
      (handler (ok_env None) clientWriter
         (get_request ''/ipfs/bafyroot/a/b'' ''entity-bytes=0:10''))))) = [True]
   \<and> map (\<lambda>cfg. (ExpectDuplicatesIn cfg, WriteDuplicatesOut cfg, Cfg_Selector cfg))
        (concat (map traversal_cfg (all_events
          (handler (ok_env None) clientWriter
             (get_request ''/ipfs/bafyroot/a/b'' ''entity-bytes=0:10'')))))
      = [(True, True,
          Selector \<lparr>Root = ''bafyroot'', Path = ''a/b'', Scope = DagScopeEntity,
                    Bytes = Some range_0_10, Req_Duplicates = True\<rparr>)]"
  using duplicates_policy_consistent
    [of "ok_env None" "get_request ''/ipfs/bafyroot/a/b'' ''entity-bytes=0:10''" range_0_10 None
        car_dups clientWriter]
  by (simp add: handler_def ranged_def ok_env_def fixed_env_def run_defs producer_def Let_def
        car_dups_def)

subsection \<open>A failing traversal\<close>

text \<open>
  C4, as stated: when a block fails verification the handler stops writing, sends no new
  status, logs the failure and does not retry. The handler drops both results of
  \<open>VerifyCar\<close> and has no logger: at a run whose traversal fails, nothing is logged.
\<close>

theorem verification_failure_not_logged:
  "verify_outcomes (ok_env (Some (ErrOther ''block failed verification'')))
     (handler (ok_env (Some (ErrOther ''block failed verification''))) clientWriter
        (get_request ''/ipfs/bafyroot/a/b'' ''entity-bytes=0:10''))
     = [Some (ErrOther ''block failed verification'')]
   \<and> filter is_Log (all_events
        (handler (ok_env (Some (ErrOther ''block failed verification''))) clientWriter
          (get_request ''/ipfs/bafyroot/a/b'' ''entity-bytes=0:10''))) = []"
  by (simp add: handler_def ranged_def ok_env_def fixed_env_def run_defs producer_def Let_def)

text \<open>
  C4, amended: when \<open>VerifyCar\<close> returns an error the handler discards it. After the
  call it only cancels the producer's context: no reply with a status, no further write,
  no second traversal, and no log entry.
\<close>

theorem verification_failure_discarded:
  assumes "verify_outcomes e (handler e res req) = [Some er]"
  shows "after_VerifyCar (handler e res req) = [Cancel (WithCancel (Context req))]
       \<and> http_errors (after_VerifyCar (handler e res req)) = []
       \<and> filter is_Log (all_events (handler e res req)) = []
       \<and> length (filter is_VerifyCar (all_events (handler e res req))) = 1"
proof -
  obtain br err where p: "ParseByteRange e req = (br, err)" by (cases "ParseByteRange e req")
  show ?thesis
  proof (cases br)
    case None
    with p assms show ?thesis
      by (cases err) (simp_all add: handler_def run_defs)
  next
    case (Some b)
    have "verify_outcomes e (ranged e res req b) = [Some er]"
      using assms p Some by (cases err) (simp_all add: handler_def run_defs)
    then have "after_VerifyCar (ranged e res req b) = [Cancel (WithCancel (Context req))]
       \<and> filter is_Log (all_events (ranged e res req b)) = []
       \<and> length (filter is_VerifyCar (all_events (ranged e res req b))) = 1"
      by (auto simp: ranged_def run_defs Let_def producer_def after_VerifyCar_def
               split: sum.splits option.splits prod.splits if_splits)
    then show ?thesis using p Some
      by (cases err) (simp_all add: handler_def run_defs after_VerifyCar_def)
  qed
qed

theorem verification_failure_discarded_witness:
  "after_VerifyCar (handler (ok_env (Some (ErrOther ''block failed verification''))) clientWriter
        (get_request ''/ipfs/bafyroot/a/b'' ''entity-bytes=0:10''))
     = [Cancel (WithCancel (BaseContext ''request''))]"
proof -
  have h: "verify_outcomes (ok_env (Some (ErrOther ''block failed verification'')))
     (handler (ok_env (Some (ErrOther ''block failed verification''))) clientWriter
        (get_request ''/ipfs/bafyroot/a/b'' ''entity-bytes=0:10''))
     = [Some (ErrOther ''block failed verification'')]"
    by (simp add: handler_def ranged_def ok_env_def fixed_env_def run_defs producer_def Let_def)
  from verification_failure_discarded [OF h] show ?thesis
    by (simp add: get_request_def)
qed


section \<open>The query string of the producer's request\<close>

subsection \<open>Escaping and unescaping\<close>

lemma upperhex_digits:
  "list_all (\<lambda>n. ishex (upperhex ! n) \<and> unhex (upperhex ! n) = n
      \<and> upperhex ! n \<noteq> CHR ''&'' \<and> upperhex ! n \<noteq> CHR ''='' \<and> upperhex ! n \<noteq> CHR '';'')
     [0..<16]"
  by code_simp

lemma upperhex_nth:
  "n < 16 \<Longrightarrow> ishex (upperhex ! n) \<and> unhex (upperhex ! n) = n"
  using upperhex_digits by (simp add: list_all_iff)

lemma upperhex_safe:
  "n < 16 \<Longrightarrow> upperhex ! n \<noteq> CHR ''&'' \<and> upperhex ! n \<noteq> CHR ''='' \<and> upperhex ! n \<noteq> CHR '';''"
  using upperhex_digits by (simp add: list_all_iff)

lemma of_char_hi: "(of_char c :: nat) div 16 < 16"
proof -
  have "(of_char c :: nat) < 256" by simp
  then show ?thesis by arith
qed

lemma char_of_split: "char_of ((of_char c :: nat) div 16 * 16 + of_char c mod 16) = c"
  by simp

lemma not_shouldEscape_plain:
  "\<not> shouldEscape c \<Longrightarrow> c \<noteq> CHR ''%'' \<and> c \<noteq> CHR ''+'' \<and> c \<noteq> CHR ''&'' \<and> c \<noteq> CHR ''='' \<and> c \<noteq> CHR '';''"
  by (auto simp: shouldEscape_def split: if_splits)

lemma shouldEscape_space: "shouldEscape CHR '' ''"
  by (simp add: shouldEscape_def)

lemma QueryUnescape_escape_byte:
  "QueryUnescape (escape_byte c @ s) = map_option ((#) c) (QueryUnescape s)"
proof (cases "c = CHR '' ''")
  case True
  then show ?thesis by (simp add: escape_byte_def)
next
  case False
  show ?thesis
  proof (cases "shouldEscape c")
    case True
    have "of_char c mod 16 < (16::nat)" by simp
    with True False upperhex_nth [OF of_char_hi [of c]] upperhex_nth [of "of_char c mod 16"]
    show ?thesis by (simp add: escape_byte_def)
  next
    case False
    with not_shouldEscape_plain [OF False] \<open>c \<noteq> CHR '' ''\<close> show ?thesis
      by (simp add: escape_byte_def)
  qed
qed

lemma QueryUnescape_QueryEscape_append:
  "QueryUnescape (QueryEscape s @ t) = map_option ((@) s) (QueryUnescape t)"
proof (induction s)
  case Nil
  show ?case by (simp add: QueryEscape_def option.map_ident)
next
  case (Cons c s)
  have "QueryUnescape (QueryEscape (c # s) @ t) = QueryUnescape (escape_byte c @ (QueryEscape s @ t))"
    by (simp add: QueryEscape_def)
  also have "\<dots> = map_option ((#) c) (QueryUnescape (QueryEscape s @ t))"
    by (rule QueryUnescape_escape_byte)
  finally show ?case using Cons by (simp add: option.map_comp comp_def)
qed

lemma QueryUnescape_QueryEscape: "QueryUnescape (QueryEscape s) = Some s"
  using QueryUnescape_QueryEscape_append [of s "[]"] by simp

lemma escape_byte_safe:
  "x \<in> set (escape_byte c) \<Longrightarrow> x \<noteq> CHR ''&'' \<and> x \<noteq> CHR ''='' \<and> x \<noteq> CHR '';''"
proof -
  assume x: "x \<in> set (escape_byte c)"
  have lo: "of_char c mod 16 < (16::nat)" by simp
  show ?thesis
  proof (cases "c = CHR '' ''")
    case True
    with x show ?thesis by (simp add: escape_byte_def)
  next
    case False
    show ?thesis
    proof (cases "shouldEscape c")
      case True
      with False x upperhex_safe [OF of_char_hi [of c]] upperhex_safe [OF lo]
      show ?thesis by (auto simp: escape_byte_def)
    next
      case False
      with not_shouldEscape_plain [OF False] \<open>c \<noteq> CHR '' ''\<close> x show ?thesis
        by (simp add: escape_byte_def)
    qed
  qed
qed

lemma QueryEscape_safe:
  "x \<in> set (QueryEscape s) \<Longrightarrow> x \<noteq> CHR ''&'' \<and> x \<noteq> CHR ''='' \<and> x \<noteq> CHR '';''"
  by (auto simp: QueryEscape_def dest: escape_byte_safe)

lemma Cut_found: "sep \<notin> set a \<Longrightarrow> Cut (a @ sep # b) sep = (a, b)"
  by (induction a) (auto simp: Cut_def)

lemma Cut_not_found: "sep \<notin> set a \<Longrightarrow> Cut a sep = (a, [])"
  by (induction a) (auto simp: Cut_def)


lemma enc_pair_safe: "CHR ''&'' \<notin> set (enc_pair p) \<and> CHR '';'' \<notin> set (enc_pair p) \<and> enc_pair p \<noteq> []"
  using QueryEscape_safe [of "CHR ''&''"] QueryEscape_safe [of "CHR '';''"]
  by (auto simp: enc_pair_def)

lemma Cut_enc_pair: "Cut (enc_pair p) CHR ''='' = (QueryEscape (fst p), QueryEscape (snd p))"
proof -
  have "CHR ''='' \<notin> set (QueryEscape (fst p))" using QueryEscape_safe [of "CHR ''=''"] by blast
  then show ?thesis unfolding enc_pair_def using Cut_found [of "CHR ''=''" "QueryEscape (fst p)"]
    by simp
qed

lemma parseQuery_Nil: "parseQuery m [] = m"
  by (subst parseQuery.simps) simp

lemma parseQuery_pair_more:
  "parseQuery m (enc_pair p @ CHR ''&'' # rest) = parseQuery (Values_append m (fst p) (snd p)) rest"
proof -
  have c: "Cut (enc_pair p @ CHR ''&'' # rest) CHR ''&'' = (enc_pair p, rest)"
    using enc_pair_safe [of p] by (simp add: Cut_found)
  show ?thesis
    by (subst parseQuery.simps)
       (simp add: c Cut_enc_pair QueryUnescape_QueryEscape enc_pair_safe)
qed

lemma parseQuery_pair_last:
  "parseQuery m (enc_pair p) = Values_append m (fst p) (snd p)"
proof -
  have c: "Cut (enc_pair p) CHR ''&'' = (enc_pair p, [])"
    using enc_pair_safe [of p] by (simp add: Cut_not_found)
  show ?thesis
    by (subst parseQuery.simps)
       (simp add: c Cut_enc_pair QueryUnescape_QueryEscape enc_pair_safe parseQuery_Nil)
qed

lemma parseQuery_join_amp:
  "parseQuery m (join_amp (map enc_pair ps)) =
   foldl (\<lambda>m p. Values_append m (fst p) (snd p)) m ps"
proof (induction ps arbitrary: m)
  case Nil
  show ?case by (simp add: parseQuery_Nil)
next
  case (Cons p ps)
  show ?case
  proof (cases ps)
    case Nil
    then show ?thesis by (simp add: parseQuery_pair_last)
  next
    case (Cons q qs)
    with Cons.IH [of "Values_append m (fst p) (snd p)"] show ?thesis
      by (simp add: parseQuery_pair_more)
  qed
qed

lemma Encode_pairs: "Encode v = join_amp (map enc_pair (pairs_of v))"
  by (simp add: Encode_def pairs_of_def enc_pair_def map_concat comp_def)

lemma map_of_Values_append:
  "map_of (Values_append m k v) k' =
     (if k' = k then Some ((case map_of m k of None \<Rightarrow> [] | Some vs \<Rightarrow> vs) @ [v])
      else map_of m k')"
proof (cases "map_of m k")
  case None
  then show ?thesis by (simp add: Values_append_def map_add_def split: option.splits)
next
  case (Some vs)
  have "map_of (map (\<lambda>p. if fst p = k then (fst p, snd p @ [v]) else p) m) k' =
        (if k' = k then map_option (\<lambda>vs. vs @ [v]) (map_of m k) else map_of m k')"
    by (induction m) auto
  with Some show ?thesis by (simp add: Values_append_def)
qed


lemma map_of_foldl_Values_append:
  "map_of (foldl (\<lambda>m p. Values_append m (fst p) (snd p)) m ps) k =
     (if map snd (filter (\<lambda>p. fst p = k) ps) = [] then map_of m k
      else Some ((case map_of m k of None \<Rightarrow> [] | Some vs \<Rightarrow> vs)
                 @ map snd (filter (\<lambda>p. fst p = k) ps)))"
proof (induction ps arbitrary: m)
  case Nil
  show ?case by simp
next
  case (Cons p ps)
  show ?case
    by (simp add: Cons.IH map_of_Values_append)
qed

lemma filter_key_concat:
  "distinct ks \<Longrightarrow>
   map snd (filter (\<lambda>p. fst p = k) (concat (map (\<lambda>k'. map (Pair k') (f k')) ks))) =
     (if k \<in> set ks then f k else [])"
proof (induction ks)
  case Nil
  show ?case by simp
next
  case (Cons a ks)
  have same: "map snd (filter (\<lambda>p. fst p = k) (map (Pair a) (f a))) = (if a = k then f a else [])"
    by (induction "f a") (auto simp: filter_empty_conv comp_def)
  from Cons show ?case by (auto simp: same)
qed

lemma values_of_pairs_of:
  "map snd (filter (\<lambda>p. fst p = k) (pairs_of v)) =
     (case map_of v k of None \<Rightarrow> [] | Some vs \<Rightarrow> vs)"
proof -
  have d: "distinct (sort (remdups (map fst v)))" by simp
  have "k \<notin> set (sort (remdups (map fst v))) \<Longrightarrow> map_of v k = None"
    by (simp add: map_of_eq_None_iff)
  then show ?thesis
    unfolding pairs_of_def using filter_key_concat [OF d, of k "\<lambda>k. case map_of v k of None \<Rightarrow> [] | Some vs \<Rightarrow> vs"]
    by auto
qed

lemma Query_Encode:
  "map_of (Query (Encode v)) k =
     (case map_of v k of None \<Rightarrow> None | Some vs \<Rightarrow> if vs = [] then None else Some vs)"
  by (simp add: Query_def Encode_pairs parseQuery_join_amp map_of_foldl_Values_append
        values_of_pairs_of split: option.splits)

lemma parseQuery_nonempty:
  "(\<forall>k. map_of m k \<noteq> Some []) \<Longrightarrow> map_of (parseQuery m q) k \<noteq> Some []"
proof (induction m q rule: parseQuery.induct)
  case (1 m query)
  have app: "\<And>a b k. map_of (Values_append m a b) k \<noteq> Some []"
    using "1.prems" by (simp add: map_of_Values_append)
  show ?case
    using 1 app
    by (subst parseQuery.simps) (auto split: prod.splits option.splits simp: Let_def)
qed

lemma map_of_Values_Del:
  "map_of (Values_Del m k) k' = (if k' = k then None else map_of m k')"
  unfolding Values_Del_def by (induction m) auto

lemma clonedReq_query:
  "Values_Get (Query (URL_RawQuery (clonedReq c req))) k =
     (if k = ''entity-bytes'' then None else Values_Get (Query (URL_RawQuery req)) k)"
proof -
  have ne: "map_of (Query (URL_RawQuery req)) k \<noteq> Some []"
    unfolding Query_def by (rule parseQuery_nonempty) simp
  show ?thesis using ne
    by (simp add: clonedReq_def Values_Get_def Query_Encode map_of_Values_Del Let_def
          split: option.splits)
qed

subsection \<open>The goroutine of a ranged request\<close>

lemma run_ranged_ok:
  assumes "ParseUrlPath e (URL_Path req) = Inr (root, path)"
    and "CheckFormat e req = Inr accept"
    and "ParseScope e req = Inr sc"
    and "NewWritable e res [root] \<lparr>WriteAsCarV1 = True, AllowDuplicatePuts = Duplicates accept\<rparr> = None"
  shows "ranged e res req br =
     [NewWritableCall res [root] \<lparr>WriteAsCarV1 = True, AllowDuplicatePuts = Duplicates accept\<rparr>,
      Go (producer res (WithCancel (Context req)) req),
      VerifyCar
        \<lparr>Cfg_Root = root,
         Cfg_Selector = Selector \<lparr>Root = root, Path = path_String path, Scope = sc,
                                 Bytes = Some br, Req_Duplicates = Duplicates accept\<rparr>,
         ExpectDuplicatesIn = Duplicates accept, WriteDuplicatesOut = Duplicates accept,
         UnsafeSkipUnexpected = True\<rparr>
        (Context req) PipeReadEnd
        \<lparr>WriteStorage = Some \<lparr>writer = res, roots = [root],
            opts = \<lparr>WriteAsCarV1 = True, AllowDuplicatePuts = Duplicates accept\<rparr>\<rparr>,
         TrustedStorage = True, UnixFSReification = True\<rparr>,
      Cancel (WithCancel (Context req))]"
  using assms by (simp add: ranged_def Let_def)

lemma spawned_ranged:
  "spawned (ranged e res req br) = [] \<or>
   spawned (ranged e res req br) = [producer res (WithCancel (Context req)) req]"
  by (auto simp: ranged_def run_defs Let_def producer_def
           split: sum.splits option.splits prod.splits)

lemma next_calls_ranged:
  "next_calls (ranged e res req br) = [] \<or>
   next_calls (ranged e res req br) =
     [(wrappedWriter res, clonedReq (WithCancel (Context req)) req)]"
  by (auto simp: ranged_def run_defs Let_def producer_def
           split: sum.splits option.splits prod.splits)



text \<open>
  C10: the request handed to the underlying handler on a ranged request has the method,
  the path and the headers of the original. Its context is the cancellable one derived
  from the original's. Every query parameter other than \<open>entity-bytes\<close> has the values
  it had, in their order, and \<open>entity-bytes\<close> has none. (The raw query text itself is
  written anew by \<open>Encode\<close>, keys sorted.)
\<close>

theorem clone_differs_only_in_context_and_range:
  assumes "ParseByteRange e req = (Some br, err)"
    and "(w, r) \<in> set (next_calls (handler e res req))"
  shows "Method r = Method req \<and> URL_Path r = URL_Path req \<and> Header r = Header req
      \<and> request.more r = request.more req
      \<and> Context r = WithCancel (Context req)
      \<and> (\<forall>k. k \<noteq> ''entity-bytes'' \<longrightarrow>
           Values_Get (Query (URL_RawQuery r)) k = Values_Get (Query (URL_RawQuery req)) k)
      \<and> Values_Get (Query (URL_RawQuery r)) ''entity-bytes'' = None"
proof -
  have "next_calls (handler e res req) = next_calls (ranged e res req br)"
    using assms(1) by (cases err) (simp_all add: handler_def run_defs)
  with assms(2) next_calls_ranged [of e res req br]
  have r: "r = clonedReq (WithCancel (Context req)) req" by auto
  show ?thesis unfolding r
    by (simp add: clonedReq_query) (simp add: clonedReq_def Let_def)
qed

theorem clone_differs_only_in_context_and_range_witness:
  "Values_Get (Query ''a=b+c&x=1'') ''a'' =
     Values_Get (Query ''x=1&entity-bytes=0%3A10&a=b+c'') ''a''
   \<and> Values_Get (Query ''a=b+c&x=1'') ''x'' =
     Values_Get (Query ''x=1&entity-bytes=0%3A10&a=b+c'') ''x''
   \<and> Values_Get (Query ''a=b+c&x=1'') ''entity-bytes'' = None
   \<and> Values_Get (Query ''x=1&entity-bytes=0%3A10&a=b+c'') ''entity-bytes'' = Some [''0:10'']"
proof -
  let ?req = "get_request ''/ipfs/bafyroot/a/b'' ''x=1&entity-bytes=0%3A10&a=b+c''"
  let ?r = "?req\<lparr>URL_RawQuery := ''a=b+c&x=1'', Context := WithCancel (BaseContext ''request'')\<rparr>"
  let ?w = "clientWriter\<lparr>Write_sink := PipeWriteEnd\<rparr>"
  have h1: "ParseByteRange (ok_env None) ?req = (Some range_0_10, None)"
    by (simp add: ok_env_def fixed_env_def)
  have n: "next_calls (handler (ok_env None) clientWriter ?req) = [(?w, ?r)]"
    by code_simp
  then have h2: "(?w, ?r) \<in> set (next_calls (handler (ok_env None) clientWriter ?req))"
    by simp
  have o: "Values_Get (Query ''x=1&entity-bytes=0%3A10&a=b+c'') ''entity-bytes'' = Some [''0:10'']"
    by code_simp
  from clone_differs_only_in_context_and_range [OF h1 h2] o show ?thesis
    by (simp add: get_request_def)
qed


section \<open>The pipe and the response body\<close>

subsection \<open>Neither end of the pipe is closed\<close>

lemma no_pipe_close: "filter is_PipeClose (all_events (handler e res req)) = []"
proof -
  have r: "\<And>br. filter is_PipeClose (all_events (ranged e res req br)) = []"
    by (auto simp: ranged_def run_defs Let_def producer_def
             split: sum.splits option.splits prod.splits)
  obtain br err where p: "ParseByteRange e req = (br, err)" by (cases "ParseByteRange e req")
  show ?thesis using p r
    by (cases br; cases err) (simp_all add: handler_def run_defs)
qed

text \<open>A traversal that waits for more than the goroutine can deliver stays that way
  under every step.\<close>

lemma starved_producer_step:
  assumes st: "starved s" and u: "u \<in> set (producer_steps s)"
  shows "starved u"
proof (cases "Producer s")
  case (Ready ops)
  show ?thesis
  proof (cases ops)
    case Nil
    with Ready u show ?thesis by (simp add: producer_steps_def)
  next
    case (Cons op rest)
    show ?thesis
    proof (cases op)
      case (PipeWrite b)
      from st Ready have open_ends: "\<not> WriteClosed s" "\<not> ReadClosed s" and i: "Inflight s = None"
        by (simp_all add: starved_def)
      with u Ready Cons PipeWrite
      have "u = s\<lparr>Producer := InWrite rest, Inflight := Some b\<rparr>"
        by (simp add: producer_steps_def)
      with st Ready Cons PipeWrite i show ?thesis
        by (simp add: starved_def bytes_to_come_def split: consumer.splits)
    next
      case PipeCloseWrite
      with st Ready Cons show ?thesis by (simp add: starved_def)
    qed
  qed
next
  case (InWrite ops)
  from st have open_ends: "\<not> WriteClosed s" "\<not> ReadClosed s" by (simp_all add: starved_def)
  show ?thesis
  proof (cases "Inflight s")
    case None
    with u InWrite open_ends have "u = s\<lparr>Producer := Ready ops\<rparr>"
      by (simp add: producer_steps_def)
    with st InWrite None show ?thesis
      by (simp add: starved_def bytes_to_come_def split: consumer.splits)
  next
    case (Some b)
    with u InWrite open_ends show ?thesis by (simp add: producer_steps_def)
  qed
qed

lemma starved_consumer_step:
  assumes st: "starved s" and u: "u \<in> set (consumer_steps s)"
  shows "starved u"
proof (cases "Consumer s")
  case Returned
  with st show ?thesis by (simp add: starved_def)
next
  case (Reading n)
  from st Reading have n: "bytes_to_come s < n" and w: "\<not> WriteClosed s"
    by (simp_all add: starved_def)
  then have pos: "n \<noteq> 0" by simp
  show ?thesis
  proof (cases "Inflight s")
    case None
    with u Reading pos w show ?thesis by (simp add: consumer_steps_def)
  next
    case (Some b)
    from n Some have le: "length b \<le> bytes_to_come s" by (simp add: bytes_to_come_def)
    with n have nb: "\<not> n < length b" by simp
    from u Reading pos Some nb
    have "u = s\<lparr>Inflight := None, Consumer := Reading (n - length b)\<rparr>"
      by (simp add: consumer_steps_def)
    moreover from st Some have "\<exists>ops. Producer s = InWrite ops"
      by (cases "Producer s") (simp_all add: starved_def)
    ultimately show ?thesis using st Reading Some n le
      by (auto simp: starved_def bytes_to_come_def)
  qed
qed

lemma starved_step: "starved s \<Longrightarrow> u \<in> set (steps s) \<Longrightarrow> starved u"
  by (auto simp: steps_def intro: starved_producer_step starved_consumer_step)

lemma starved_reachable: "reachable s t \<Longrightarrow> starved s \<Longrightarrow> starved t"
  by (induction rule: reachable.induct) (auto intro: starved_step)

lemma producer_ops_clonedReq:
  "concat (map (producer_ops e) (producer res c req)) = map PipeWrite (NextWrites e (clonedReq c req))"
  by (simp add: producer_def wrappedWriter_def)


lemma bytes_of_PipeWrites: "sum_list (map (bytes_of_op \<circ> PipeWrite) ws) = sum_list (map length ws)"
  by (induction ws) simp_all

text \<open>
  On every ranged request whose goroutine is started, if the underlying handler writes
  fewer bytes than the traversal reads, the traversal never returns in any state a run
  can reach, and both ends of the pipe stay open.
\<close>

lemma short_stream_blocks_traversal:
  assumes "ParseByteRange e req = (Some br, err)"
    and "ParseUrlPath e (URL_Path req) = Inr (root, path)"
    and "CheckFormat e req = Inr accept"
    and "ParseScope e req = Inr sc"
    and "NewWritable e res [root] \<lparr>WriteAsCarV1 = True, AllowDuplicatePuts = Duplicates accept\<rparr> = None"
    and short: "sum_list (map length (NextWrites e (clonedReq (WithCancel (Context req)) req)))
        < sum_list (map (VerifyCarNeeds e) (concat (map traversal_cfg (handler e res req))))"
    and r: "reachable (pipe_of_run e (handler e res req)) t"
  shows "Consumer t \<noteq> Returned \<and> \<not> WriteClosed t \<and> \<not> ReadClosed t"
proof -
  have sp: "spawned (handler e res req) = [producer res (WithCancel (Context req)) req]"
    using assms(1) run_ranged_ok [OF assms(2-5), of br]
    by (cases err) (simp_all add: handler_def run_defs producer_def)
  have "starved (pipe_of_run e (handler e res req))"
    using short
    by (simp add: starved_def pipe_of_run_def sp producer_ops_clonedReq bytes_to_come_def
          bytes_of_PipeWrites image_iff)
  from starved_reachable [OF r this] show ?thesis
    by (auto simp: starved_def split: consumer.splits)
qed

text \<open>
  C2: when the goroutine ends before it has supplied the data the traversal waits for,
  the pipe is closed from its side, so that the read ends with end-of-stream or an error;
  and the goroutine does not outlive the request. The goroutine's body ends with the call
  of \<open>next\<close> and the handler defers only \<open>cancel\<close>: no run closes either end.
  With an underlying handler that returns without writing, the goroutine has returned,
  the write end is open and the traversal waits in \<open>Read\<close> with nothing left that
  could move. With one that writes five bytes to a traversal waiting for nine, every run
  ends in that state too. With one that writes five bytes to a traversal that returns
  after four, every run ends with the handler returned and the goroutine inside
  \<open>Write\<close>.
\<close>

theorem pipe_never_closed:
  "filter is_PipeClose (all_events (handler (ok_env None) clientWriter range_request)) = []
   \<and> pipe_of_run (ok_env None) (handler (ok_env None) clientWriter range_request)
       = \<lparr>Producer = Ready [], Inflight = None, WriteClosed = False, ReadClosed = False,
          Consumer = Reading 1, Deferred = [Cancel (WithCancel (BaseContext ''request''))]\<rparr>
   \<and> blocked_forever
        (pipe_of_run (ok_env None) (handler (ok_env None) clientWriter range_request))
   \<and> final_states 20
        (pipe_of_run short_stream_env (handler short_stream_env clientWriter range_request))
       = [\<lparr>Producer = Ready [], Inflight = None, WriteClosed = False, ReadClosed = False,
           Consumer = Reading 4, Deferred = [Cancel (WithCancel (BaseContext ''request''))]\<rparr>]
   \<and> unfinished 20
        (pipe_of_run short_stream_env (handler short_stream_env clientWriter range_request)) = []
   \<and> final_states 20
        (pipe_of_run early_return_env (handler early_return_env clientWriter range_request))
       = [\<lparr>Producer = InWrite [], Inflight = Some ''e'', WriteClosed = False,
           ReadClosed = False, Consumer = Returned, Deferred = []\<rparr>]
   \<and> unfinished 20
        (pipe_of_run early_return_env (handler early_return_env clientWriter range_request)) = []"
  by code_simp

subsection \<open>What the client receives on a ranged request\<close>

lemma uvarint_not_Nil: "uvarint n \<noteq> []"
  by (subst uvarint.simps) simp

lemma uvarint_single: "uvarint n = [c] \<Longrightarrow> n < 128 \<and> c = char_of n"
  by (subst (asm) uvarint.simps) (auto split: if_splits simp: uvarint_not_Nil)

lemma CarV1Header_not_A: "CarV1Header e rs @ rest \<noteq> ''A''"
proof
  assume a: "CarV1Header e rs @ rest = ''A''"
  let ?p = "CarHeaderPayload e rs"
  from a have l: "length (uvarint (length ?p)) + length ?p + length rest = 1"
    by (metis CarV1Header_def length_append length_Cons list.size(3) One_nat_def add.assoc)
  have "length (uvarint (length ?p)) \<ge> 1"
    using uvarint_not_Nil [of "length ?p"] by (cases "uvarint (length ?p)") auto
  with l have "length ?p = 0" and "length rest = 0" by arith+
  then have p: "?p = []" and r: "rest = []" by simp_all
  with a have "uvarint 0 = ''A''" by (simp add: CarV1Header_def)
  moreover have "uvarint 0 \<noteq> ''A''" by code_simp
  ultimately show False by simp
qed




end
